theory Spec2Isabelle
  imports Complex_Main "HOL-Library.Sublist"
begin

section \<open>Numbers, points and errors\<close>

text \<open>
  The program (game.py) computes with Python numbers: the polygon and the click positions
  are integers, every quotient and every trigonometric value is a float. The model takes
  all of them as real numbers with exact arithmetic, so a statement below is about the
  algorithm, not about rounding. A point is a pair of coordinates.

  The exceptions the modelled functions could raise are values: a division or a modulo
  by zero, and a list index out of range. A function that can raise returns
  \<open>error + 'a\<close>, with \<open>Inl\<close> for the exception.
\<close>

type_synonym point = "real \<times> real"

datatype error = ZeroDivisionError | IndexError

fun bind_err :: "error + 'a \<Rightarrow> ('a \<Rightarrow> error + 'b) \<Rightarrow> error + 'b" where
  "bind_err (Inl e) f = Inl e"
| "bind_err (Inr v) f = f v"

definition py_truediv :: "real \<Rightarrow> real \<Rightarrow> error + real" where
  "py_truediv a b = (if b = 0 then Inl ZeroDivisionError else Inr (a / b))"

definition py_mod :: "nat \<Rightarrow> nat \<Rightarrow> error + nat" where
  "py_mod a n = (if n = 0 then Inl ZeroDivisionError else Inr (a mod n))"

definition py_getitem :: "'a list \<Rightarrow> nat \<Rightarrow> error + 'a" where
  "py_getitem xs i = (if i < length xs then Inr (xs ! i) else Inl IndexError)"

section \<open>Constants of the program\<close>

definition polygon_points :: "point list" where
  "polygon_points = [(100, 100), (350, 80), (450, 150), (400, 250), (500, 300),
                     (350, 350), (450, 450), (250, 400), (150, 450), (120, 250)]"

definition WIDTH :: real where
  "WIDTH = 600"

definition HEIGHT :: real where
  "HEIGHT = 600"

definition EPS :: real where
  "EPS = 1 / 10 ^ 9"

definition RAY_LENGTH :: real where
  "RAY_LENGTH = WIDTH + HEIGHT"

section \<open>point_in_polygon\<close>

text \<open>
  One pass of the loop body for the edge that starts at index \<open>i\<close>; \<open>cnt\<close> is the
  counter before the pass, the result the counter after it.
\<close>

definition pip_denominator :: "real \<Rightarrow> real \<Rightarrow> real" where
  "pip_denominator yi yj = (if \<bar>yj - yi\<bar> > EPS then yj - yi else EPS)"

definition pip_edge :: "point \<Rightarrow> point list \<Rightarrow> nat \<Rightarrow> nat \<Rightarrow> error + nat" where
  "pip_edge pt poly i cnt =
     (case pt of (x, y) \<Rightarrow>
      bind_err (py_getitem poly i) (\<lambda>(xi, yi).
      bind_err (py_mod (i + 1) (length poly)) (\<lambda>j.
      bind_err (py_getitem poly j) (\<lambda>(xj, yj).
        let between = ((yi > y) \<noteq> (yj > y)) in
        bind_err (py_truediv ((xj - xi) * (y - yi)) (pip_denominator yi yj)) (\<lambda>q.
          let intersect = q + xi in
          Inr (if between \<and> x < intersect then cnt + 1 else cnt))))))"

fun pip_loop :: "point \<Rightarrow> point list \<Rightarrow> nat list \<Rightarrow> nat \<Rightarrow> error + nat" where
  "pip_loop pt poly [] cnt = Inr cnt"
| "pip_loop pt poly (i # rest) cnt =
     bind_err (pip_edge pt poly i cnt) (pip_loop pt poly rest)"

definition point_in_polygon :: "point \<Rightarrow> point list \<Rightarrow> error + bool" where
  "point_in_polygon pt poly =
     bind_err (pip_loop pt poly [0..<length poly] 0)
       (\<lambda>cnt. Inr (if cnt mod 2 = 1 then True else False))"

text \<open>
  The edges of a polygon, as both loops over the vertex list read them: edge \<open>i\<close> goes
  from vertex \<open>i\<close> to vertex \<open>(i + 1) % n\<close>.
\<close>

definition polygon_edge :: "point list \<Rightarrow> nat \<Rightarrow> point \<times> point" where
  "polygon_edge poly i = (poly ! i, poly ! ((i + 1) mod length poly))"

text \<open>
  The test the loop body of point_in_polygon applies to an edge, and the number of edges
  that pass it.
\<close>

definition pip_counts_edge :: "point \<Rightarrow> point \<times> point \<Rightarrow> bool" where
  "pip_counts_edge pt e =
     (case pt of (x, y) \<Rightarrow> case e of ((xi, yi), (xj, yj)) \<Rightarrow>
        ((yi > y) \<noteq> (yj > y)) \<and>
        x < (xj - xi) * (y - yi) / pip_denominator yi yj + xi)"

definition pip_crossings :: "point \<Rightarrow> point list \<Rightarrow> nat" where
  "pip_crossings pt poly =
     length (filter (\<lambda>i. pip_counts_edge pt (polygon_edge poly i)) [0..<length poly])"

text \<open>
  The even-odd rule in the words of the specification: an edge counts when its y-span
  straddles the point's y and the x-coordinate at which the line through the edge meets
  the horizontal line through the point lies strictly right of the point.
\<close>

definition line_crossing_x :: "point \<times> point \<Rightarrow> real \<Rightarrow> real" where
  "line_crossing_x e y =
     (case e of ((xi, yi), (xj, yj)) \<Rightarrow> xi + (xj - xi) * (y - yi) / (yj - yi))"

definition ray_crosses_edge :: "point \<Rightarrow> point \<times> point \<Rightarrow> bool" where
  "ray_crosses_edge pt e =
     (case pt of (x, y) \<Rightarrow> case e of ((xi, yi), (xj, yj)) \<Rightarrow>
        ((yi > y) \<noteq> (yj > y)) \<and> line_crossing_x e y > x)"

definition ray_crossings :: "point \<Rightarrow> point list \<Rightarrow> nat" where
  "ray_crossings pt poly =
     length (filter (\<lambda>i. ray_crosses_edge pt (polygon_edge poly i)) [0..<length poly])"

section \<open>cross_product and segment_ray_intersection\<close>

fun cross_product :: "point \<Rightarrow> point \<Rightarrow> point \<Rightarrow> point \<Rightarrow> real" where
  "cross_product (x1, y1) (x2, y2) (x3, y3) (x4, y4) =
     (x2 - x1) * (y4 - y3) - (y2 - y1) * (x4 - x3)"

text \<open>The result \<open>Inr None\<close> is Python's \<open>None\<close>: the segments are (almost) parallel.\<close>

definition segment_ray_intersection ::
  "point \<Rightarrow> point \<Rightarrow> point \<Rightarrow> point \<Rightarrow> error + (real \<times> real \<times> point) option" where
  "segment_ray_intersection p1 p2 p3 p4 =
     (case p1 of (x1, y1) \<Rightarrow> case p2 of (x2, y2) \<Rightarrow>
      let den = cross_product p1 p2 p3 p4 in
      if \<bar>den\<bar> < EPS then Inr None
      else
        bind_err (py_truediv (cross_product p1 p3 p3 p4) den) (\<lambda>t.
        bind_err (py_truediv (cross_product p1 p3 p1 p2) den) (\<lambda>u.
          let ix = x1 + t * (x2 - x1);
              iy = y1 + t * (y2 - y1)
          in Inr (Some (t, u, (ix, iy))))))"

text \<open>
  The parametrised line of the specification, \<open>A(t) = p + t (q - p)\<close>.
\<close>

definition point_at :: "point \<Rightarrow> point \<Rightarrow> real \<Rightarrow> point" where
  "point_at p q t = (fst p + t * (fst q - fst p), snd p + t * (snd q - snd p))"

section \<open>cast_ray\<close>

text \<open>
  The loop keeps the pair (first_t, first_point). first_t starts as float('inf'), which
  every real number is below: \<open>None\<close> stands for it. first_point starts as \<open>None\<close>.
\<close>

type_synonym ray_state = "real option \<times> point option"

fun less_first_t :: "real \<Rightarrow> real option \<Rightarrow> bool" where
  "less_first_t t None = True"
| "less_first_t t (Some first_t) = (t < first_t)"

definition hit_accepted :: "real \<Rightarrow> real \<Rightarrow> bool" where
  "hit_accepted t u = (t > 1 / 10 ^ 8 \<and> - (1 / 10 ^ 8) \<le> u \<and> u \<le> 1 + 1 / 10 ^ 8)"

definition cast_ray_edge ::
  "point \<Rightarrow> point \<Rightarrow> point list \<Rightarrow> nat \<Rightarrow> ray_state \<Rightarrow> error + ray_state" where
  "cast_ray_edge guard ray_end polygon i st =
     (case st of (first_t, first_point) \<Rightarrow>
      bind_err (py_getitem polygon i) (\<lambda>a.
      bind_err (py_mod (i + 1) (length polygon)) (\<lambda>j.
      bind_err (py_getitem polygon j) (\<lambda>b.
      bind_err (segment_ray_intersection guard ray_end a b) (\<lambda>res.
        case res of
          None \<Rightarrow> Inr (first_t, first_point)
        | Some (t, u, ip) \<Rightarrow>
            if hit_accepted t u then
              (if less_first_t t first_t then Inr (Some t, Some ip)
               else Inr (first_t, first_point))
            else Inr (first_t, first_point))))))"

fun cast_ray_loop ::
  "point \<Rightarrow> point \<Rightarrow> point list \<Rightarrow> nat list \<Rightarrow> ray_state \<Rightarrow> error + ray_state" where
  "cast_ray_loop guard ray_end polygon [] st = Inr st"
| "cast_ray_loop guard ray_end polygon (i # rest) st =
     bind_err (cast_ray_edge guard ray_end polygon i st)
       (cast_ray_loop guard ray_end polygon rest)"

definition ray_end_of :: "point \<Rightarrow> real \<Rightarrow> point" where
  "ray_end_of guard angle =
     (fst guard + RAY_LENGTH * cos angle, snd guard + RAY_LENGTH * sin angle)"

definition cast_ray :: "point \<Rightarrow> real \<Rightarrow> point list \<Rightarrow> error + point option" where
  "cast_ray guard angle polygon =
     (let ray_end = ray_end_of guard angle in
      bind_err (cast_ray_loop guard ray_end polygon [0..<length polygon] (None, None))
        (\<lambda>(first_t, first_point). Inr first_point))"

text \<open>
  The accepted hits in the words of the specification: for each edge in turn, the result
  of segment_ray_intersection between the ray segment and the edge, kept when there is
  one and its parameters pass the acceptance test. Each hit is listed as its parameter
  \<open>t\<close> with its intersection point.
\<close>

definition edge_hit :: "point \<Rightarrow> point \<Rightarrow> point \<times> point \<Rightarrow> (real \<times> point) option" where
  "edge_hit guard ray_end e =
     (case segment_ray_intersection guard ray_end (fst e) (snd e) of
        Inr (Some (t, u, ip)) \<Rightarrow> if hit_accepted t u then Some (t, ip) else None
      | _ \<Rightarrow> None)"

definition accepted_hits :: "point \<Rightarrow> real \<Rightarrow> point list \<Rightarrow> (real \<times> point) list" where
  "accepted_hits guard angle polygon =
     List.map_filter (\<lambda>i. edge_hit guard (ray_end_of guard angle) (polygon_edge polygon i))
       [0..<length polygon]"

text \<open>
  What one accepted hit does to the pair kept by the loop of cast_ray.
\<close>

fun keep_nearest :: "ray_state \<Rightarrow> real \<times> point \<Rightarrow> ray_state" where
  "keep_nearest (first_t, first_point) (t, ip) =
     (if less_first_t t first_t then (Some t, Some ip) else (first_t, first_point))"

section \<open>dedupe_points\<close>

definition dist2 :: "point \<Rightarrow> point \<Rightarrow> real" where
  "dist2 p q = (fst p - fst q) ^ 2 + (snd p - snd q) ^ 2"

text \<open>The inner loop: is some point of \<open>out\<close> closer to \<open>p\<close> than the tolerance?\<close>

fun found_close :: "point \<Rightarrow> point list \<Rightarrow> real \<Rightarrow> bool" where
  "found_close p [] tol = False"
| "found_close p (q # out) tol =
     (if dist2 p q < tol * tol then True else found_close p out tol)"

fun dedupe_loop :: "point list \<Rightarrow> real \<Rightarrow> point list \<Rightarrow> point list" where
  "dedupe_loop [] tol out = out"
| "dedupe_loop (p # points) tol out =
     (if \<not> found_close p out tol then dedupe_loop points tol (out @ [p])
      else dedupe_loop points tol out)"

definition dedupe_points :: "point list \<Rightarrow> real \<Rightarrow> point list" where
  "dedupe_points points tol = dedupe_loop points tol []"

text \<open>The tolerance of a call that passes none.\<close>

definition dedupe_default_tol :: real where
  "dedupe_default_tol = 1 / 10 ^ 6"

text \<open>The points of a list at their first occurrence, in the order of the list.\<close>

fun first_occurrences :: "'a list \<Rightarrow> 'a list" where
  "first_occurrences [] = []"
| "first_occurrences (x # xs) = x # filter (\<lambda>y. y \<noteq> x) (first_occurrences xs)"

text \<open>The points the loop of dedupe_points appends to \<open>out\<close>, for the proofs.\<close>

fun kept_points :: "point list \<Rightarrow> real \<Rightarrow> point list \<Rightarrow> point list" where
  "kept_points [] tol out = []"
| "kept_points (p # points) tol out =
     (if \<not> found_close p out tol then p # kept_points points tol (out @ [p])
      else kept_points points tol out)"

section \<open>visibility_polygon\<close>

text \<open>
  math.atan2 on real numbers: the angle in \<open>(-\<pi>, \<pi>]\<close> of the vector \<open>(x, y)\<close>,
  and 0 for the zero vector.
\<close>

definition atan2 :: "real \<Rightarrow> real \<Rightarrow> real" where
  "atan2 y x =
     (if x > 0 then arctan (y / x)
      else if x < 0 then (if y \<ge> 0 then arctan (y / x) + pi else arctan (y / x) - pi)
      else if y > 0 then pi / 2
      else if y < 0 then - (pi / 2)
      else 0)"

definition angle_around :: "point \<Rightarrow> point \<Rightarrow> real" where
  "angle_around guard p = atan2 (snd p - snd guard) (fst p - fst guard)"

fun vertex_angles :: "point \<Rightarrow> point list \<Rightarrow> real list \<Rightarrow> real list" where
  "vertex_angles guard [] angles = angles"
| "vertex_angles guard (v # polygon) angles =
     (let angle = atan2 (snd v - snd guard) (fst v - fst guard) in
      vertex_angles guard polygon (angles @ [angle - 1 / 10 ^ 7, angle, angle + 1 / 10 ^ 7]))"

fun cast_rays :: "point \<Rightarrow> point list \<Rightarrow> real list \<Rightarrow> point list \<Rightarrow> error + point list" where
  "cast_rays guard polygon [] inters = Inr inters"
| "cast_rays guard polygon (a # angles) inters =
     bind_err (cast_ray guard a polygon) (\<lambda>p.
       case p of
         None \<Rightarrow> cast_rays guard polygon angles inters
       | Some q \<Rightarrow> cast_rays guard polygon angles (inters @ [q]))"

definition visibility_polygon :: "point \<Rightarrow> point list \<Rightarrow> error + point list" where
  "visibility_polygon guard polygon =
     bind_err (cast_rays guard polygon (vertex_angles guard polygon []) []) (\<lambda>inters.
       Inr (sort_key (angle_around guard) (dedupe_points inters (1 / 10 ^ 5))))"

section \<open>The main loop\<close>

text \<open>
  The state of the loop is the list of guards and the flag \<open>running\<close>. A frame first
  computes the visibility polygon of every guard (those of at least three points are
  drawn), then handles the events that came in. The events of pygame are its input:
  closing the window, a mouse click at a position, and everything else.
\<close>

datatype event = QUIT | MOUSEBUTTONDOWN point | OTHER

record state =
  guards :: "point list"
  running :: bool

definition initial_state :: state where
  "initial_state = \<lparr>guards = [], running = True\<rparr>"

fun draw_guards :: "point list \<Rightarrow> point list \<Rightarrow> point list list \<Rightarrow> error + point list list" where
  "draw_guards polygon [] drawn = Inr drawn"
| "draw_guards polygon (guard # rest) drawn =
     bind_err (visibility_polygon guard polygon) (\<lambda>vis.
       if length vis \<ge> 3 then draw_guards polygon rest (drawn @ [vis])
       else draw_guards polygon rest drawn)"

definition handle_event :: "point list \<Rightarrow> event \<Rightarrow> state \<Rightarrow> error + state" where
  "handle_event polygon ev s =
     (case ev of
        QUIT \<Rightarrow> Inr (s\<lparr>running := False\<rparr>)
      | MOUSEBUTTONDOWN pos \<Rightarrow>
          bind_err (point_in_polygon pos polygon) (\<lambda>inside.
            if inside then Inr (s\<lparr>guards := guards s @ [pos]\<rparr>) else Inr s)
      | OTHER \<Rightarrow> Inr s)"

fun handle_events :: "point list \<Rightarrow> event list \<Rightarrow> state \<Rightarrow> error + state" where
  "handle_events polygon [] s = Inr s"
| "handle_events polygon (ev # evs) s =
     bind_err (handle_event polygon ev s) (handle_events polygon evs)"

definition frame :: "point list \<Rightarrow> event list \<Rightarrow> state \<Rightarrow> error + state" where
  "frame polygon evs s =
     bind_err (draw_guards polygon (guards s) []) (\<lambda>drawn. handle_events polygon evs s)"

text \<open>
  The loop runs one frame per list of events while \<open>running\<close> holds. The list of frames
  is the input that has arrived so far; the result is the state then.
\<close>

fun main_loop :: "point list \<Rightarrow> event list list \<Rightarrow> state \<Rightarrow> error + state" where
  "main_loop polygon [] s = Inr s"
| "main_loop polygon (evs # frames) s =
     (if running s then bind_err (frame polygon evs s) (main_loop polygon frames)
      else Inr s)"

text \<open>The invariant of the loop: every stored guard passed the test.\<close>

definition guards_inside :: "point list \<Rightarrow> state \<Rightarrow> bool" where
  "guards_inside polygon s = list_all (\<lambda>g. point_in_polygon g polygon = Inr True) (guards s)"

section \<open>Basic facts\<close>

lemma EPS_pos: "0 < EPS"
  by (simp add: EPS_def)

lemma pip_denominator_nonzero: "pip_denominator yi yj \<noteq> 0"
  using EPS_pos by (auto simp: pip_denominator_def)

lemma next_index_in_range: "i < length poly \<Longrightarrow> (i + 1) mod length poly < length poly"
  by (cases "length poly") simp_all

lemma pip_edge_value:
  assumes "i < length poly"
  shows "pip_edge pt poly i cnt =
     Inr (if pip_counts_edge pt (polygon_edge poly i) then cnt + 1 else cnt)"
proof -
  from assms have n: "length poly \<noteq> 0" by auto
  note j = next_index_in_range [OF assms]
  obtain x y where pt: "pt = (x, y)" by (cases pt)
  obtain xi yi where pi: "poly ! i = (xi, yi)" by (cases "poly ! i")
  obtain xj yj where pj: "poly ! ((i + 1) mod length poly) = (xj, yj)"
    by (cases "poly ! ((i + 1) mod length poly)")
  show ?thesis
    using assms n j pt pi pj pip_denominator_nonzero [of yi yj]
    by (simp add: pip_edge_def py_getitem_def py_mod_def py_truediv_def Let_def
        pip_counts_edge_def polygon_edge_def)
qed

lemma pip_loop_value:
  "\<forall>i \<in> set idxs. i < length poly \<Longrightarrow>
   pip_loop pt poly idxs cnt =
     Inr (cnt + length (filter (\<lambda>i. pip_counts_edge pt (polygon_edge poly i)) idxs))"
proof (induction idxs arbitrary: cnt)
  case Nil
  show ?case by simp
next
  case (Cons i rest)
  then have i: "i < length poly" and rest: "\<forall>k \<in> set rest. k < length poly"
    by simp_all
  show ?case
    by (simp add: pip_edge_value [OF i] Cons.IH [OF rest])
qed

lemma point_in_polygon_value:
  "point_in_polygon pt poly = Inr (odd (pip_crossings pt poly))"
proof -
  have "pip_loop pt poly [0..<length poly] 0 = Inr (pip_crossings pt poly)"
    by (simp add: pip_loop_value pip_crossings_def)
  then show ?thesis
    by (simp add: point_in_polygon_def odd_iff_mod_2_eq_one)
qed

section \<open>Facts about segment_ray_intersection\<close>

lemma sri_value:
  assumes "\<bar>cross_product p1 p2 p3 p4\<bar> \<ge> EPS"
  shows "segment_ray_intersection p1 p2 p3 p4 =
    Inr (Some (cross_product p1 p3 p3 p4 / cross_product p1 p2 p3 p4,
               cross_product p1 p3 p1 p2 / cross_product p1 p2 p3 p4,
               point_at p1 p2 (cross_product p1 p3 p3 p4 / cross_product p1 p2 p3 p4)))"
proof -
  from assms EPS_pos have "cross_product p1 p2 p3 p4 \<noteq> 0" by auto
  with assms show ?thesis
    by (cases p1; cases p2)
      (simp add: segment_ray_intersection_def py_truediv_def point_at_def Let_def del: cross_product.simps)
qed

lemma sri_none:
  assumes "\<bar>cross_product p1 p2 p3 p4\<bar> < EPS"
  shows "segment_ray_intersection p1 p2 p3 p4 = Inr None"
  using assms by (cases p1; cases p2) (simp add: segment_ray_intersection_def Let_def del: cross_product.simps)

lemma lines_meet:
  assumes "cross_product p1 p2 p3 p4 \<noteq> 0"
  shows "point_at p1 p2 (cross_product p1 p3 p3 p4 / cross_product p1 p2 p3 p4) =
         point_at p3 p4 (cross_product p1 p3 p1 p2 / cross_product p1 p2 p3 p4)"
proof -
  obtain x1 y1 where p1: "p1 = (x1, y1)" by (cases p1)
  obtain x2 y2 where p2: "p2 = (x2, y2)" by (cases p2)
  obtain x3 y3 where p3: "p3 = (x3, y3)" by (cases p3)
  obtain x4 y4 where p4: "p4 = (x4, y4)" by (cases p4)
  from assms show ?thesis
    unfolding p1 p2 p3 p4 point_at_def
    by (simp add: field_simps)
qed

lemma lines_meet_unique:
  assumes "cross_product p1 p2 p3 p4 \<noteq> 0" and "point_at p1 p2 t = point_at p3 p4 u"
  shows "t = cross_product p1 p3 p3 p4 / cross_product p1 p2 p3 p4"
    and "u = cross_product p1 p3 p1 p2 / cross_product p1 p2 p3 p4"
proof -
  obtain x1 y1 where p1: "p1 = (x1, y1)" by (cases p1)
  obtain x2 y2 where p2: "p2 = (x2, y2)" by (cases p2)
  obtain x3 y3 where p3: "p3 = (x3, y3)" by (cases p3)
  obtain x4 y4 where p4: "p4 = (x4, y4)" by (cases p4)
  from assms(2) have ex: "x1 + t * (x2 - x1) = x3 + u * (x4 - x3)"
    and ey: "y1 + t * (y2 - y1) = y3 + u * (y4 - y3)"
    by (simp_all add: p1 p2 p3 p4 point_at_def)
  have "t * cross_product p1 p2 p3 p4 = cross_product p1 p3 p3 p4"
    using ex ey unfolding p1 p2 p3 p4 by simp algebra
  with assms(1) show "t = cross_product p1 p3 p3 p4 / cross_product p1 p2 p3 p4"
    by (simp add: field_simps)
  have "u * cross_product p1 p2 p3 p4 = cross_product p1 p3 p1 p2"
    using ex ey unfolding p1 p2 p3 p4 by simp algebra
  with assms(1) show "u = cross_product p1 p3 p1 p2 / cross_product p1 p2 p3 p4"
    by (simp add: field_simps)
qed

section \<open>Claims about segment_ray_intersection\<close>

lemma sri_no_error: "\<not> isl (segment_ray_intersection p1 p2 p3 p4)"
proof (cases "\<bar>cross_product p1 p2 p3 p4\<bar> < EPS")
  case True
  then show ?thesis by (simp add: sri_none)
next
  case False
  then have "\<bar>cross_product p1 p2 p3 p4\<bar> \<ge> EPS" by simp
  then show ?thesis by (simp add: sri_value)
qed

text \<open>
  Claim C5. When the absolute value of cross_product p1 p2 p3 p4 is at least EPS,
  segment_ray_intersection returns a triple \<open>(t, u, ip)\<close> where \<open>t\<close> and \<open>u\<close> are the
  two cross-product ratios, \<open>ip = p1 + t (p2 - p1)\<close>, and
  \<open>p1 + t (p2 - p1) = p3 + u (p4 - p3)\<close> over the real numbers. The pair \<open>(t, u)\<close> is the
  only solution of that system.
\<close>

theorem segment_ray_intersection_solves_system:
  assumes "\<bar>cross_product p1 p2 p3 p4\<bar> \<ge> EPS"
  shows "\<exists>t u ip. segment_ray_intersection p1 p2 p3 p4 = Inr (Some (t, u, ip)) \<and>
           t = cross_product p1 p3 p3 p4 / cross_product p1 p2 p3 p4 \<and>
           u = cross_product p1 p3 p1 p2 / cross_product p1 p2 p3 p4 \<and>
           ip = point_at p1 p2 t \<and>
           point_at p1 p2 t = point_at p3 p4 u \<and>
           (\<forall>t' u'. point_at p1 p2 t' = point_at p3 p4 u' \<longrightarrow> t' = t \<and> u' = u)"
proof -
  from assms EPS_pos have nz: "cross_product p1 p2 p3 p4 \<noteq> 0" by auto
  show ?thesis
    using sri_value [OF assms] lines_meet [OF nz] lines_meet_unique [OF nz]
    by blast
qed

theorem segment_ray_intersection_solves_system_witness:
  "EPS \<le> \<bar>cross_product (0, 0) (2, 0) (1, -1) (1, 1)\<bar> \<and>
   segment_ray_intersection (0, 0) (2, 0) (1, -1) (1, 1) = Inr (Some (1 / 2, 1 / 2, (1, 0))) \<and>
   point_at (0, 0) (2, 0) (1 / 2) = point_at (1, -1) (1, 1) (1 / 2)"
proof -
  have h: "EPS \<le> \<bar>cross_product (0, 0) (2, 0) (1, -1) (1, 1)\<bar>"
    by (simp add: EPS_def)
  from segment_ray_intersection_solves_system [OF h]
  obtain t u ip where
    r: "segment_ray_intersection (0, 0) (2, 0) (1, -1) (1, 1) = Inr (Some (t, u, ip))" and
    t: "t = cross_product (0, 0) (1, -1) (1, -1) (1, 1) / cross_product (0, 0) (2, 0) (1, -1) (1, 1)" and
    u: "u = cross_product (0, 0) (1, -1) (0, 0) (2, 0) / cross_product (0, 0) (2, 0) (1, -1) (1, 1)" and
    ip: "ip = point_at (0, 0) (2, 0) t" and
    m: "point_at (0, 0) (2, 0) t = point_at (1, -1) (1, 1) u"
    by blast
  from t have t': "t = 1 / 2" by simp
  from u have u': "u = 1 / 2" by simp
  from ip t' have ip': "ip = (1, 0)" by (simp add: point_at_def)
  from h r m show ?thesis unfolding t' u' ip' by simp
qed

text \<open>
  Claim C6. segment_ray_intersection returns \<open>None\<close> exactly when the absolute value of
  cross_product p1 p2 p3 p4 is below EPS, and it never raises.
\<close>

theorem segment_ray_intersection_none_iff_parallel:
  "(segment_ray_intersection p1 p2 p3 p4 = Inr None \<longleftrightarrow> \<bar>cross_product p1 p2 p3 p4\<bar> < EPS) \<and>
   \<not> isl (segment_ray_intersection p1 p2 p3 p4)"
proof (cases "\<bar>cross_product p1 p2 p3 p4\<bar> < EPS")
  case True
  then show ?thesis by (simp add: sri_none)
next
  case False
  then have "\<bar>cross_product p1 p2 p3 p4\<bar> \<ge> EPS" by simp
  with False show ?thesis by (simp add: sri_value)
qed

theorem segment_ray_intersection_none_iff_parallel_witness:
  "segment_ray_intersection (0, 0) (1, 0) (0, 1) (1, 1) = Inr None \<and>
   \<bar>cross_product (0, 0) (1, 0) (0, 1) (1, 1)\<bar> < EPS \<and>
   segment_ray_intersection (0, 0) (2, 0) (1, -1) (1, 1) \<noteq> Inr None \<and>
   \<not> \<bar>cross_product (0, 0) (2, 0) (1, -1) (1, 1)\<bar> < EPS"
  using segment_ray_intersection_none_iff_parallel [of "(0, 0)" "(1, 0)" "(0, 1)" "(1, 1)"]
    segment_ray_intersection_none_iff_parallel [of "(0, 0)" "(2, 0)" "(1, -1)" "(1, 1)"]
  by (simp add: EPS_def)

section \<open>Division by zero\<close>

text \<open>
  Claim C9. Neither point_in_polygon nor segment_ray_intersection raises a division by
  zero: the denominator of point_in_polygon is the positive constant EPS whenever
  \<open>\<bar>yj - yi\<bar> \<le> EPS\<close> and \<open>yj - yi\<close> otherwise, so it is never zero, and
  segment_ray_intersection divides by \<open>den\<close> only when \<open>\<bar>den\<bar> \<ge> EPS\<close>.
\<close>

theorem no_division_by_zero:
  "point_in_polygon pt poly \<noteq> Inl ZeroDivisionError \<and>
   segment_ray_intersection p1 p2 p3 p4 \<noteq> Inl ZeroDivisionError \<and>
   0 < EPS \<and> pip_denominator yi yj \<noteq> 0 \<and>
   pip_denominator yi yj = (if \<bar>yj - yi\<bar> \<le> EPS then EPS else yj - yi)"
proof -
  have "segment_ray_intersection p1 p2 p3 p4 \<noteq> Inl ZeroDivisionError"
    using sri_no_error [of p1 p2 p3 p4] by auto
  then show ?thesis
    using EPS_pos pip_denominator_nonzero [of yi yj]
    by (auto simp: point_in_polygon_value pip_denominator_def)
qed

theorem no_division_by_zero_witness:
  "point_in_polygon (0, 0) [(0, 0), (1, 0)] \<noteq> Inl ZeroDivisionError \<and>
   segment_ray_intersection (0, 0) (0, 0) (0, 0) (0, 0) \<noteq> Inl ZeroDivisionError \<and>
   pip_denominator 0 0 = EPS"
  using no_division_by_zero [of "(0, 0)" "[(0, 0), (1, 0)]" "(0, 0)" "(0, 0)" "(0, 0)" "(0, 0)" 0 0]
    EPS_pos
  by simp

section \<open>Degenerate polygons\<close>

lemma degenerate_crossings:
  assumes "length poly < 2"
  shows "pip_crossings pt poly = 0"
proof (cases poly)
  case Nil
  then show ?thesis by (simp add: pip_crossings_def)
next
  case (Cons v rest)
  with assms have poly: "poly = [v]" by (cases rest) simp_all
  obtain x y where pt: "pt = (x, y)" by (cases pt)
  obtain xv yv where v: "v = (xv, yv)" by (cases v)
  show ?thesis
    by (simp add: poly pt v pip_crossings_def pip_counts_edge_def polygon_edge_def)
qed

text \<open>
  Claim C10. Against a vertex list of fewer than two vertices point_in_polygon returns
  \<open>False\<close> without raising, so a click is never accepted as a guard: the state is
  unchanged.
\<close>

theorem degenerate_polygon_rejects:
  assumes "length poly < 2"
  shows "point_in_polygon pt poly = Inr False \<and>
         handle_event poly (MOUSEBUTTONDOWN pt) s = Inr s"
  by (simp add: handle_event_def point_in_polygon_value degenerate_crossings [OF assms])

theorem degenerate_polygon_rejects_witness:
  "length [(3, 4) :: point] < 2 \<and>
   point_in_polygon (3, 4) [(3, 4)] = Inr False \<and>
   point_in_polygon (1, 1) [] = Inr False \<and>
   handle_event [(3, 4)] (MOUSEBUTTONDOWN (0, 4)) initial_state = Inr initial_state"
  using degenerate_polygon_rejects [of "[(3, 4)]" "(3, 4)" initial_state]
    degenerate_polygon_rejects [of "[]" "(1, 1)" initial_state]
    degenerate_polygon_rejects [of "[(3, 4)]" "(0, 4)" initial_state]
  by simp

section \<open>The even-odd rule\<close>

lemma counts_edge_agree:
  assumes "case e of ((xi, yi), (xj, yj)) \<Rightarrow> ((yi > y) = (yj > y)) \<or> \<bar>yj - yi\<bar> > EPS"
  shows "pip_counts_edge (x, y) e = ray_crosses_edge (x, y) e"
  using assms
  by (auto simp: pip_counts_edge_def ray_crosses_edge_def line_crossing_x_def
      pip_denominator_def split: prod.splits)

text \<open>
  Where every edge either does not straddle the point's y or has \<open>\<bar>yj - yi\<bar> > EPS\<close>, as
  with integer coordinates, point_in_polygon is the even-odd rule of the specification.
\<close>

lemma point_in_polygon_even_odd_when_steep:
  assumes "list_all
       (\<lambda>i. case polygon_edge poly i of ((xi, yi), (xj, yj)) \<Rightarrow>
          ((yi > y) = (yj > y)) \<or> \<bar>yj - yi\<bar> > EPS)
       [0..<length poly]"
  shows "point_in_polygon (x, y) poly = Inr (odd (ray_crossings (x, y) poly))"
proof -
  have "filter (\<lambda>i. pip_counts_edge (x, y) (polygon_edge poly i)) [0..<length poly] =
        filter (\<lambda>i. ray_crosses_edge (x, y) (polygon_edge poly i)) [0..<length poly]"
  proof (rule filter_cong [OF refl])
    fix i assume "i \<in> set [0..<length poly]"
    with assms have "case polygon_edge poly i of ((xi, yi), (xj, yj)) \<Rightarrow>
          ((yi > y) = (yj > y)) \<or> \<bar>yj - yi\<bar> > EPS"
      by (simp add: list_all_iff)
    then show "pip_counts_edge (x, y) (polygon_edge poly i) =
               ray_crosses_edge (x, y) (polygon_edge poly i)"
      by (rule counts_edge_agree)
  qed
  then show ?thesis
    by (simp add: point_in_polygon_value pip_crossings_def ray_crossings_def)
qed

text \<open>
  Claim C2. point_in_polygon should return \<open>True\<close> exactly when the number of edges that
  straddle the point's y and whose line meets the horizontal line through the point
  strictly right of it is odd. The code breaks this on an edge that straddles with
  \<open>0 < \<bar>yj - yi\<bar> \<le> EPS\<close>: it divides by EPS, which is needed only for \<open>yj = yi\<close>, where
  the edge never straddles, and so loses the size and the sign of the y-delta. The first
  point below lies inside its thin triangle, one edge crosses the ray, and the code
  answers \<open>False\<close>; the second lies 100 units outside its triangle, no edge crosses the
  ray, and the code answers \<open>True\<close>.
\<close>

theorem point_in_polygon_near_horizontal_edge:
  "point_in_polygon (3, 1 / 4000000000) [(0, 0), (10, 1 / 2000000000), (0, 1)] = Inr False \<and>
   odd (ray_crossings (3, 1 / 4000000000) [(0, 0), (10, 1 / 2000000000), (0, 1)]) \<and>
   point_in_polygon (600, 1 / 4000000000) [(0, 0), (0, 1), (500, 1 / 2000000000)] = Inr True \<and>
   even (ray_crossings (600, 1 / 4000000000) [(0, 0), (0, 1), (500, 1 / 2000000000)])"
proof (intro conjI)
  show "point_in_polygon (3, 1 / 4000000000) [(0, 0), (10, 1 / 2000000000), (0, 1)] = Inr False"
    by (simp add: point_in_polygon_value pip_crossings_def pip_counts_edge_def polygon_edge_def
        pip_denominator_def EPS_def)
  show "odd (ray_crossings (3, 1 / 4000000000) [(0, 0), (10, 1 / 2000000000), (0, 1)])"
    by (simp add: ray_crossings_def ray_crosses_edge_def line_crossing_x_def polygon_edge_def)
  show "point_in_polygon (600, 1 / 4000000000) [(0, 0), (0, 1), (500, 1 / 2000000000)] = Inr True"
    by (simp add: point_in_polygon_value pip_crossings_def pip_counts_edge_def polygon_edge_def
        pip_denominator_def EPS_def)
  show "even (ray_crossings (600, 1 / 4000000000) [(0, 0), (0, 1), (500, 1 / 2000000000)])"
    by (simp add: ray_crossings_def ray_crosses_edge_def line_crossing_x_def polygon_edge_def)
qed

section \<open>The click handler\<close>

lemma inside_200: "point_in_polygon (200, 200) polygon_points = Inr True"
  by (simp add: point_in_polygon_value pip_crossings_def pip_counts_edge_def
      pip_denominator_def EPS_def polygon_points_def polygon_edge_def upt_rec)

lemma outside_10: "point_in_polygon (10, 10) polygon_points = Inr False"
  by (simp add: point_in_polygon_value pip_crossings_def pip_counts_edge_def
      pip_denominator_def EPS_def polygon_points_def polygon_edge_def upt_rec)

text \<open>
  Claim C3. A click is appended to the guards exactly when point_in_polygon returns
  \<open>True\<close> for it; when it returns \<open>False\<close> the state is unchanged, and the handler does
  not raise in either case.
\<close>

theorem click_appends_iff_inside:
  "(point_in_polygon c polygon = Inr True \<and>
      handle_event polygon (MOUSEBUTTONDOWN c) s = Inr (s\<lparr>guards := guards s @ [c]\<rparr>)) \<or>
   (point_in_polygon c polygon = Inr False \<and>
      handle_event polygon (MOUSEBUTTONDOWN c) s = Inr s)"
  by (simp add: handle_event_def point_in_polygon_value)

theorem click_appends_iff_inside_witness:
  "handle_event polygon_points (MOUSEBUTTONDOWN (200, 200)) initial_state =
     Inr \<lparr>guards = [(200, 200)], running = True\<rparr> \<and>
   handle_event polygon_points (MOUSEBUTTONDOWN (10, 10)) initial_state = Inr initial_state"
  using click_appends_iff_inside [of "(200, 200)" polygon_points initial_state]
    click_appends_iff_inside [of "(10, 10)" polygon_points initial_state]
  by (simp add: inside_200 outside_10 initial_state_def)

section \<open>cast_ray returns the nearest accepted hit\<close>

lemma cast_ray_edge_value:
  assumes "i < length polygon"
  shows "cast_ray_edge guard ray_end polygon i st =
     Inr (case edge_hit guard ray_end (polygon_edge polygon i) of
            None \<Rightarrow> st | Some h \<Rightarrow> keep_nearest st h)"
proof -
  from assms have n: "length polygon \<noteq> 0" by auto
  note j = next_index_in_range [OF assms]
  obtain first_t first_point where st: "st = (first_t, first_point)" by (cases st)
  show ?thesis
  proof (cases "segment_ray_intersection guard ray_end (polygon ! i)
                  (polygon ! ((i + 1) mod length polygon))")
    case (Inl e)
    with sri_no_error [of guard ray_end "polygon ! i" "polygon ! ((i + 1) mod length polygon)"]
    show ?thesis by simp
  next
    case (Inr res)
    show ?thesis
    proof (cases res)
      case None
      with Inr assms n j st show ?thesis
        by (simp add: cast_ray_edge_def py_getitem_def py_mod_def edge_hit_def polygon_edge_def)
    next
      case (Some h)
      obtain t u ip where h: "h = (t, u, ip)" by (cases h)
      from Inr Some h assms n j st show ?thesis
        by (simp add: cast_ray_edge_def py_getitem_def py_mod_def edge_hit_def polygon_edge_def)
    qed
  qed
qed

lemma cast_ray_loop_value:
  "\<forall>i \<in> set idxs. i < length polygon \<Longrightarrow>
   cast_ray_loop guard ray_end polygon idxs st =
     Inr (foldl keep_nearest st
            (List.map_filter (\<lambda>i. edge_hit guard ray_end (polygon_edge polygon i)) idxs))"
proof (induction idxs arbitrary: st)
  case Nil
  show ?case by (simp add: List.map_filter_simps)
next
  case (Cons i rest)
  then have i: "i < length polygon" and rest: "\<forall>k \<in> set rest. k < length polygon"
    by simp_all
  show ?case
    by (cases "edge_hit guard ray_end (polygon_edge polygon i)")
      (simp_all add: cast_ray_edge_value [OF i] Cons.IH [OF rest] List.map_filter_simps)
qed

lemma cast_ray_value:
  "cast_ray guard angle polygon =
     Inr (snd (foldl keep_nearest (None, None) (accepted_hits guard angle polygon)))"
  by (simp add: cast_ray_def cast_ray_loop_value accepted_hits_def Let_def split: prod.splits)

lemma keep_nearest_from_some:
  "\<exists>t ip. foldl keep_nearest (Some t0, Some ip0) hs = (Some t, Some ip) \<and>
          (t, ip) \<in> set ((t0, ip0) # hs) \<and>
          (\<forall>(t', ip') \<in> set ((t0, ip0) # hs). t \<le> t')"
proof (induction hs arbitrary: t0 ip0)
  case Nil
  show ?case by simp
next
  case (Cons h hs)
  obtain t1 ip1 where h: "h = (t1, ip1)" by (cases h)
  show ?case
  proof (cases "t1 < t0")
    case True
    from Cons.IH [of t1 ip1] obtain t ip where
      r: "foldl keep_nearest (Some t1, Some ip1) hs = (Some t, Some ip)" and
      m: "(t, ip) \<in> set ((t1, ip1) # hs)" and
      l: "\<forall>(t', ip') \<in> set ((t1, ip1) # hs). t \<le> t'"
      by blast
    from l have "t \<le> t1" by auto
    with True have "t \<le> t0" by simp
    with r m l True h show ?thesis by auto
  next
    case False
    from Cons.IH [of t0 ip0] obtain t ip where
      r: "foldl keep_nearest (Some t0, Some ip0) hs = (Some t, Some ip)" and
      m: "(t, ip) \<in> set ((t0, ip0) # hs)" and
      l: "\<forall>(t', ip') \<in> set ((t0, ip0) # hs). t \<le> t'"
      by blast
    from l have "t \<le> t0" by auto
    with False have "t \<le> t1" by simp
    with r m l False h show ?thesis by auto
  qed
qed

lemma keep_nearest_result:
  "(hs = [] \<and> snd (foldl keep_nearest (None, None) hs) = None) \<or>
   (\<exists>t ip. (t, ip) \<in> set hs \<and> (\<forall>(t', ip') \<in> set hs. t \<le> t') \<and>
            snd (foldl keep_nearest (None, None) hs) = Some ip)"
proof (cases hs)
  case Nil
  then show ?thesis by simp
next
  case (Cons h rest)
  obtain t0 ip0 where h: "h = (t0, ip0)" by (cases h)
  from keep_nearest_from_some [of t0 ip0 rest] obtain t ip where
    r: "foldl keep_nearest (Some t0, Some ip0) rest = (Some t, Some ip)" and
    m: "(t, ip) \<in> set ((t0, ip0) # rest)" and
    l: "\<forall>(t', ip') \<in> set ((t0, ip0) # rest). t \<le> t'"
    by blast
  have "snd (foldl keep_nearest (None, None) hs) = Some ip"
    by (simp add: Cons h r)
  with m l Cons h show ?thesis by blast
qed

lemma set_map_filter_iff:
  "y \<in> set (List.map_filter f xs) \<longleftrightarrow> (\<exists>x \<in> set xs. f x = Some y)"
  by (induction xs) (auto split: option.splits)

lemma edge_hit_iff:
  "edge_hit guard ray_end (a, b) = Some (t, ip) \<longleftrightarrow>
   (\<exists>u. segment_ray_intersection guard ray_end a b = Inr (Some (t, u, ip)) \<and>
        hit_accepted t u)"
  by (auto simp: edge_hit_def split: sum.splits option.splits if_splits)

lemma accepted_hits_iff:
  "(t, ip) \<in> set (accepted_hits guard angle polygon) \<longleftrightarrow>
   (\<exists>i u. i < length polygon \<and>
      segment_ray_intersection guard
        (fst guard + RAY_LENGTH * cos angle, snd guard + RAY_LENGTH * sin angle)
        (polygon ! i) (polygon ! ((i + 1) mod length polygon)) = Inr (Some (t, u, ip)) \<and>
      t > 1 / 10 ^ 8 \<and> - (1 / 10 ^ 8) \<le> u \<and> u \<le> 1 + 1 / 10 ^ 8)"
proof -
  have "(t, ip) \<in> set (accepted_hits guard angle polygon) \<longleftrightarrow>
        (\<exists>i < length polygon.
           edge_hit guard (ray_end_of guard angle) (polygon_edge polygon i) = Some (t, ip))"
    by (auto simp: accepted_hits_def set_map_filter_iff)
  also have "\<dots> \<longleftrightarrow> (\<exists>i < length polygon. \<exists>u.
      segment_ray_intersection guard (ray_end_of guard angle)
        (polygon ! i) (polygon ! ((i + 1) mod length polygon)) = Inr (Some (t, u, ip)) \<and>
      hit_accepted t u)"
    by (simp only: polygon_edge_def edge_hit_iff)
  finally show ?thesis
    unfolding ray_end_of_def hit_accepted_def by blast
qed

lemma square_hits:
  "accepted_hits (5, 5) 0 [(0, 0), (10, 0), (10, 10), (0, 10)] = [(1 / 240, (10, 5))]"
  by (simp add: accepted_hits_def edge_hit_def polygon_edge_def ray_end_of_def RAY_LENGTH_def
      WIDTH_def HEIGHT_def segment_ray_intersection_def py_truediv_def EPS_def hit_accepted_def
      upt_rec Let_def)

text \<open>
  Claim C1. The accepted hits of cast_ray are, for each edge of the polygon, the result
  \<open>(t, u, ip)\<close> of segment_ray_intersection between the segment from the guard to
  \<open>guard + RAY_LENGTH (cos angle, sin angle)\<close> and the edge, when there is one with
  \<open>t > 1e-8\<close> and \<open>-1e-8 \<le> u \<le> 1 + 1e-8\<close>. cast_ray returns \<open>None\<close> when there is no
  accepted hit, and otherwise the intersection point of an accepted hit whose \<open>t\<close> is
  the smallest.
\<close>

theorem cast_ray_nearest_accepted_hit:
  "(\<forall>t ip. (t, ip) \<in> set (accepted_hits guard angle polygon) \<longleftrightarrow>
      (\<exists>i u. i < length polygon \<and>
         segment_ray_intersection guard
           (fst guard + RAY_LENGTH * cos angle, snd guard + RAY_LENGTH * sin angle)
           (polygon ! i) (polygon ! ((i + 1) mod length polygon)) = Inr (Some (t, u, ip)) \<and>
         t > 1 / 10 ^ 8 \<and> - (1 / 10 ^ 8) \<le> u \<and> u \<le> 1 + 1 / 10 ^ 8)) \<and>
   ((accepted_hits guard angle polygon = [] \<and> cast_ray guard angle polygon = Inr None) \<or>
    (\<exists>t ip. (t, ip) \<in> set (accepted_hits guard angle polygon) \<and>
       (\<forall>(t', ip') \<in> set (accepted_hits guard angle polygon). t \<le> t') \<and>
       cast_ray guard angle polygon = Inr (Some ip)))"
proof (intro conjI allI)
  fix t ip
  show "(t, ip) \<in> set (accepted_hits guard angle polygon) \<longleftrightarrow>
      (\<exists>i u. i < length polygon \<and>
         segment_ray_intersection guard
           (fst guard + RAY_LENGTH * cos angle, snd guard + RAY_LENGTH * sin angle)
           (polygon ! i) (polygon ! ((i + 1) mod length polygon)) = Inr (Some (t, u, ip)) \<and>
         t > 1 / 10 ^ 8 \<and> - (1 / 10 ^ 8) \<le> u \<and> u \<le> 1 + 1 / 10 ^ 8)"
    by (rule accepted_hits_iff)
next
  show "(accepted_hits guard angle polygon = [] \<and> cast_ray guard angle polygon = Inr None) \<or>
    (\<exists>t ip. (t, ip) \<in> set (accepted_hits guard angle polygon) \<and>
       (\<forall>(t', ip') \<in> set (accepted_hits guard angle polygon). t \<le> t') \<and>
       cast_ray guard angle polygon = Inr (Some ip))"
    using keep_nearest_result [of "accepted_hits guard angle polygon"]
    by (simp add: cast_ray_value)
qed

theorem cast_ray_nearest_accepted_hit_witness:
  "accepted_hits (5, 5) 0 [(0, 0), (10, 0), (10, 10), (0, 10)] = [(1 / 240, (10, 5))] \<and>
   cast_ray (5, 5) 0 [(0, 0), (10, 0), (10, 10), (0, 10)] = Inr (Some (10, 5)) \<and>
   accepted_hits (5, 5) 0 [] = [] \<and>
   cast_ray (5, 5) 0 [] = Inr None"
proof -
  have e: "accepted_hits (5, 5) 0 [] = []"
    by (simp add: accepted_hits_def)
  from cast_ray_nearest_accepted_hit
    [of "(5, 5)" 0 "[(0, 0), (10, 0), (10, 10), (0, 10)]", THEN conjunct2]
  have "cast_ray (5, 5) 0 [(0, 0), (10, 0), (10, 10), (0, 10)] = Inr (Some (10, 5))"
    by (auto simp: square_hits)
  moreover from cast_ray_nearest_accepted_hit [of "(5, 5)" 0 "[]", THEN conjunct2]
  have "cast_ray (5, 5) 0 [] = Inr None"
    by (simp add: e)
  ultimately show ?thesis by (simp add: square_hits e)
qed

section \<open>Facts about dedupe_points\<close>

lemma found_close_iff:
  "found_close p out tol \<longleftrightarrow> (\<exists>q \<in> set out. dist2 p q < tol * tol)"
  by (induction out) auto

lemma dedupe_loop_kept:
  "dedupe_loop points tol out = out @ kept_points points tol out"
  by (induction points arbitrary: out) simp_all

lemma kept_points_subseq: "subseq (kept_points points tol out) points"
  by (induction points arbitrary: out) auto

lemma kept_points_not_close:
  "y \<in> set (kept_points points tol out) \<Longrightarrow> \<not> found_close y out tol"
proof (induction points arbitrary: out)
  case Nil
  then show ?case by simp
next
  case (Cons p points)
  show ?case
  proof (cases "found_close p out tol")
    case True
    with Cons show ?thesis by simp
  next
    case False
    with Cons.prems have "y = p \<or> y \<in> set (kept_points points tol (out @ [p]))"
      by simp
    then show ?thesis
    proof
      assume "y = p"
      with False show ?thesis by simp
    next
      assume "y \<in> set (kept_points points tol (out @ [p]))"
      then have "\<not> found_close y (out @ [p]) tol" by (rule Cons.IH)
      then show ?thesis by (simp add: found_close_iff)
    qed
  qed
qed

lemma kept_points_separated:
  "sorted_wrt (\<lambda>q p. tol * tol \<le> dist2 p q) (kept_points points tol out)"
proof (induction points arbitrary: out)
  case Nil
  show ?case by simp
next
  case (Cons p points)
  show ?case
  proof (cases "found_close p out tol")
    case True
    with Cons show ?thesis by simp
  next
    case False
    have "\<forall>y \<in> set (kept_points points tol (out @ [p])). tol * tol \<le> dist2 y p"
    proof
      fix y assume "y \<in> set (kept_points points tol (out @ [p]))"
      then have "\<not> found_close y (out @ [p]) tol" by (rule kept_points_not_close)
      then show "tol * tol \<le> dist2 y p" by (simp add: found_close_iff not_less)
    qed
    with False Cons.IH [of "out @ [p]"] show ?thesis by simp
  qed
qed

lemma dist2_self: "dist2 p p = 0"
  by (simp add: dist2_def)

lemma dist2_commute: "dist2 p q = dist2 q p"
  by (simp add: dist2_def power2_commute)

lemma kept_points_cover:
  assumes "tol \<noteq> 0"
  shows "x \<in> set points \<Longrightarrow> found_close x (out @ kept_points points tol out) tol"
proof (induction points arbitrary: out)
  case Nil
  then show ?case by simp
next
  case (Cons p points)
  from assms have "0 < tol\<^sup>2" by simp
  then have pos: "0 < tol * tol" by (simp add: power2_eq_square)
  show ?case
  proof (cases "found_close p out tol")
    case True
    show ?thesis
    proof (cases "x = p")
      case True
      with \<open>found_close p out tol\<close> show ?thesis by (auto simp: found_close_iff)
    next
      case False
      with Cons.prems have "x \<in> set points" by simp
      from Cons.IH [OF this, of out] True show ?thesis by simp
    qed
  next
    case False
    show ?thesis
    proof (cases "x = p")
      case True
      with False pos show ?thesis by (auto simp: found_close_iff dist2_self)
    next
      case xp: False
      with Cons.prems have "x \<in> set points" by simp
      from Cons.IH [OF this, of "out @ [p]"] False show ?thesis by simp
    qed
  qed
qed

lemma subseq_filter_all:
  "subseq ys zs \<Longrightarrow> \<forall>y \<in> set ys. P y \<Longrightarrow> subseq ys (filter P zs)"
proof -
  assume s: "subseq ys zs" and a: "\<forall>y \<in> set ys. P y"
  from s have "subseq (filter P ys) (filter P zs)" by (rule subseq_filter)
  moreover from a have "filter P ys = ys" by simp
  ultimately show ?thesis by simp
qed

lemma kept_points_first_occurrences:
  assumes "tol \<noteq> 0"
  shows "subseq (kept_points points tol out) (first_occurrences points)"
proof (induction points arbitrary: out)
  case Nil
  show ?case by simp
next
  case (Cons p points)
  from assms have "0 < tol\<^sup>2" by simp
  then have pos: "0 < tol * tol" by (simp add: power2_eq_square)
  show ?case
  proof (cases "found_close p out tol")
    case True
    have "\<forall>y \<in> set (kept_points points tol out). y \<noteq> p"
      using True kept_points_not_close by blast
    with Cons.IH [of out]
    have "subseq (kept_points points tol out) (filter (\<lambda>y. y \<noteq> p) (first_occurrences points))"
      by (rule subseq_filter_all)
    then have "subseq (kept_points points tol out)
            (p # filter (\<lambda>y. y \<noteq> p) (first_occurrences points))"
      by (rule list_emb_Cons)
    with True show ?thesis by simp
  next
    case False
    have "\<forall>y \<in> set (kept_points points tol (out @ [p])). y \<noteq> p"
    proof
      fix y assume "y \<in> set (kept_points points tol (out @ [p]))"
      then have "\<not> found_close y (out @ [p]) tol" by (rule kept_points_not_close)
      with pos show "y \<noteq> p" by (auto simp: found_close_iff dist2_self)
    qed
    with Cons.IH [of "out @ [p]"]
    have "subseq (kept_points points tol (out @ [p]))
            (filter (\<lambda>y. y \<noteq> p) (first_occurrences points))"
      by (rule subseq_filter_all)
    with False show ?thesis by simp
  qed
qed

text \<open>
  Claim C7. For a positive tolerance, dedupe_points returns a subsequence of its input
  that lists points in the order of their first occurrence; two points at different
  places of the output are at squared distance at least \<open>tol * tol\<close>; and every point of
  the input, so every dropped one, is at squared distance below \<open>tol * tol\<close> of a point of
  the output.
\<close>

theorem dedupe_points_separated_cover:
  assumes "0 < tol"
  shows "subseq (dedupe_points points tol) points \<and>
         subseq (dedupe_points points tol) (first_occurrences points) \<and>
         (\<forall>i j. i < j \<and> j < length (dedupe_points points tol) \<longrightarrow>
            tol * tol \<le> dist2 (dedupe_points points tol ! i) (dedupe_points points tol ! j)) \<and>
         (\<forall>p \<in> set points. \<exists>q \<in> set (dedupe_points points tol). dist2 p q < tol * tol)"
proof -
  from assms have nz: "tol \<noteq> 0" by simp
  have d: "dedupe_points points tol = kept_points points tol []"
    by (simp add: dedupe_points_def dedupe_loop_kept)
  have a: "subseq (kept_points points tol []) points"
    by (rule kept_points_subseq)
  have b: "subseq (kept_points points tol []) (first_occurrences points)"
    by (rule kept_points_first_occurrences [OF nz])
  have c: "\<forall>i j. i < j \<and> j < length (kept_points points tol []) \<longrightarrow>
            tol * tol \<le> dist2 (kept_points points tol [] ! i) (kept_points points tol [] ! j)"
    using kept_points_separated [of tol points "[]"]
    by (simp add: sorted_wrt_iff_nth_less dist2_commute)
  have e: "\<forall>p \<in> set points. \<exists>q \<in> set (kept_points points tol []). dist2 p q < tol * tol"
  proof
    fix p assume "p \<in> set points"
    from kept_points_cover [OF nz this, of "[]"]
    show "\<exists>q \<in> set (kept_points points tol []). dist2 p q < tol * tol"
      by (simp add: found_close_iff)
  qed
  from a b c e show ?thesis unfolding d by (intro conjI)
qed

lemma dedupe_example:
  "dedupe_points [(0, 0), (0, 0), (1, 0), (0, 1 / 2)] 1 = [(0, 0), (1, 0)]"
  by (simp add: dedupe_points_def dist2_def power2_eq_square)

theorem dedupe_points_separated_cover_witness:
  "(0 :: real) < 1 \<and>
   dedupe_points [(0, 0), (0, 0), (1, 0), (0, 1 / 2)] 1 = [(0, 0), (1, 0)] \<and>
   subseq [(0, 0), (1, 0)] ([(0, 0), (0, 0), (1, 0), (0, 1 / 2)] :: point list) \<and>
   (\<exists>q \<in> set ([(0, 0), (1, 0)] :: point list). dist2 (0, 1 / 2) q < 1 * 1)"
proof -
  have h: "(0 :: real) < 1" by simp
  note t = dedupe_points_separated_cover [OF h, of "[(0, 0), (0, 0), (1, 0), (0, 1 / 2)]",
    unfolded dedupe_example]
  from t [THEN conjunct1]
  have s: "subseq [(0, 0), (1, 0)] ([(0, 0), (0, 0), (1, 0), (0, 1 / 2)] :: point list)" .
  from t [THEN conjunct2, THEN conjunct2, THEN conjunct2]
  have "\<forall>p \<in> set ([(0, 0), (0, 0), (1, 0), (0, 1 / 2)] :: point list).
      \<exists>q \<in> set ([(0, 0), (1, 0)] :: point list). dist2 p q < 1 * 1" .
  then have "\<exists>q \<in> set ([(0, 0), (1, 0)] :: point list). dist2 (0, 1 / 2) q < 1 * 1"
    by simp
  with h s show ?thesis by (simp only: dedupe_example simp_thms)
qed

section \<open>visibility_polygon is sorted by angle\<close>

lemma cast_rays_returns:
  "\<exists>ps. cast_rays guard polygon angles inters = Inr ps"
proof (induction angles arbitrary: inters)
  case Nil
  show ?case by simp
next
  case (Cons a angles)
  show ?case
    by (cases "snd (foldl keep_nearest (None, None) (accepted_hits guard a polygon))")
      (simp_all add: cast_ray_value Cons.IH)
qed

lemma visibility_polygon_value:
  "\<exists>inters. visibility_polygon guard polygon =
     Inr (sort_key (angle_around guard) (dedupe_points inters (1 / 10 ^ 5)))"
proof -
  from cast_rays_returns [of guard polygon "vertex_angles guard polygon []" "[]"]
  obtain ps where "cast_rays guard polygon (vertex_angles guard polygon []) [] = Inr ps"
    by blast
  then show ?thesis by (auto simp: visibility_polygon_def)
qed

text \<open>
  Claim C4. visibility_polygon returns, without raising, a sequence whose angles
  \<open>atan2 (p.y - guard.y) (p.x - guard.x)\<close> around the guard are in ascending order.
\<close>

theorem visibility_polygon_sorted_by_angle:
  "\<exists>vis. visibility_polygon guard polygon = Inr vis \<and>
     sorted (map (\<lambda>p. atan2 (snd p - snd guard) (fst p - fst guard)) vis)"
proof -
  from visibility_polygon_value [of guard polygon] obtain inters where
    v: "visibility_polygon guard polygon =
          Inr (sort_key (angle_around guard) (dedupe_points inters (1 / 10 ^ 5)))"
    by blast
  have "sorted (map (angle_around guard)
          (sort_key (angle_around guard) (dedupe_points inters (1 / 10 ^ 5))))"
    by (rule sorted_sort_key)
  then have "sorted (map (\<lambda>p. atan2 (snd p - snd guard) (fst p - fst guard))
          (sort_key (angle_around guard) (dedupe_points inters (1 / 10 ^ 5))))"
    by (simp add: angle_around_def [abs_def])
  with v show ?thesis by blast
qed

theorem visibility_polygon_sorted_by_angle_witness:
  "\<exists>vis. visibility_polygon (5, 5) [(0, 0), (10, 0), (10, 10), (0, 10)] = Inr vis \<and>
     sorted (map (\<lambda>p. atan2 (snd p - 5) (fst p - 5)) vis)"
  using visibility_polygon_sorted_by_angle [of "(5, 5)" "[(0, 0), (10, 0), (10, 10), (0, 10)]"]
  by simp

section \<open>The invariant of the main loop\<close>

lemma draw_guards_returns:
  "\<exists>d. draw_guards polygon gs drawn = Inr d"
proof (induction gs arbitrary: drawn)
  case Nil
  show ?case by simp
next
  case (Cons g gs)
  from visibility_polygon_value [of g polygon] obtain vis where
    "visibility_polygon g polygon = Inr vis" by blast
  with Cons.IH show ?case by simp
qed

lemma handle_event_inside:
  assumes "guards_inside polygon s"
  shows "\<exists>s'. handle_event polygon ev s = Inr s' \<and> guards_inside polygon s'"
proof (cases ev)
  case QUIT
  with assms show ?thesis by (simp add: handle_event_def guards_inside_def)
next
  case (MOUSEBUTTONDOWN pos)
  with assms show ?thesis
    by (simp add: handle_event_def guards_inside_def point_in_polygon_value)
next
  case OTHER
  with assms show ?thesis by (simp add: handle_event_def)
qed

lemma handle_events_inside:
  "guards_inside polygon s \<Longrightarrow>
   \<exists>s'. handle_events polygon evs s = Inr s' \<and> guards_inside polygon s'"
proof (induction evs arbitrary: s)
  case Nil
  then show ?case by simp
next
  case (Cons ev evs)
  from handle_event_inside [OF Cons.prems, of ev] obtain s1 where
    h: "handle_event polygon ev s = Inr s1" and i: "guards_inside polygon s1"
    by blast
  from Cons.IH [OF i] h show ?case by simp
qed

lemma frame_inside:
  assumes "guards_inside polygon s"
  shows "\<exists>s'. frame polygon evs s = Inr s' \<and> guards_inside polygon s'"
proof -
  from draw_guards_returns [of polygon "guards s" "[]"] obtain d where
    "draw_guards polygon (guards s) [] = Inr d" by blast
  with handle_events_inside [OF assms, of evs] show ?thesis
    by (simp add: frame_def)
qed

lemma main_loop_inside:
  "guards_inside polygon s \<Longrightarrow>
   \<exists>s'. main_loop polygon frames s = Inr s' \<and> guards_inside polygon s'"
proof (induction frames arbitrary: s)
  case Nil
  then show ?case by simp
next
  case (Cons evs frames)
  show ?case
  proof (cases "running s")
    case False
    with Cons.prems show ?thesis by simp
  next
    case True
    from frame_inside [OF Cons.prems, of evs] obtain s1 where
      f: "frame polygon evs s = Inr s1" and i: "guards_inside polygon s1"
      by blast
    from Cons.IH [OF i] f True show ?thesis by simp
  qed
qed

text \<open>
  Claim C8. Whatever events arrive, the main loop started with no guards does not raise,
  and in the state it reaches every stored guard satisfies point_in_polygon. The frames
  are arbitrary, so this covers the state after every event.
\<close>

theorem guards_always_inside:
  "\<exists>s. main_loop polygon frames initial_state = Inr s \<and>
       (\<forall>g \<in> set (guards s). point_in_polygon g polygon = Inr True)"
proof -
  have "guards_inside polygon initial_state"
    by (simp add: guards_inside_def initial_state_def)
  from main_loop_inside [OF this, of frames] show ?thesis
    by (simp add: guards_inside_def list_all_iff)
qed

lemma main_loop_example:
  "main_loop polygon_points
     [[MOUSEBUTTONDOWN (200, 200), OTHER, MOUSEBUTTONDOWN (10, 10), QUIT],
      [MOUSEBUTTONDOWN (200, 200)]] initial_state =
   Inr \<lparr>guards = [(200, 200)], running = False\<rparr>"
  by (simp add: initial_state_def frame_def handle_event_def inside_200 outside_10)

theorem guards_always_inside_witness:
  "main_loop polygon_points
     [[MOUSEBUTTONDOWN (200, 200), OTHER, MOUSEBUTTONDOWN (10, 10), QUIT],
      [MOUSEBUTTONDOWN (200, 200)]] initial_state =
   Inr \<lparr>guards = [(200, 200)], running = False\<rparr> \<and>
   point_in_polygon (200, 200) polygon_points = Inr True"
proof -
  from guards_always_inside [of polygon_points
     "[[MOUSEBUTTONDOWN (200, 200), OTHER, MOUSEBUTTONDOWN (10, 10), QUIT],
       [MOUSEBUTTONDOWN (200, 200)]]"]
  obtain s where
    a: "main_loop polygon_points
          [[MOUSEBUTTONDOWN (200, 200), OTHER, MOUSEBUTTONDOWN (10, 10), QUIT],
           [MOUSEBUTTONDOWN (200, 200)]] initial_state = Inr s" and
    b: "\<forall>g \<in> set (guards s). point_in_polygon g polygon_points = Inr True"
    by blast
  from a have s: "s = \<lparr>guards = [(200, 200)], running = False\<rparr>"
    unfolding main_loop_example by simp
  from b have "point_in_polygon (200, 200) polygon_points = Inr True"
    unfolding s by simp
  with main_loop_example show ?thesis by (intro conjI)
qed

end
